theory Spec2Isabelle
  imports Main "HOL-Library.Signed_Division" "HOL-Library.Word"
begin

section \<open>multiget: range planning, concurrent fetch, validation, reassembly\<close>

text \<open>
  A shallow embedding of \<^verbatim>\<open>src/index.ts\<close>. JavaScript numbers are modelled as
  \<^typ>\<open>int\<close>: every quantity of the planner is an integer, and integer arithmetic on
  doubles is exact below \<open>2^53\<close>. The remainder operator \<^verbatim>\<open>%\<close> of JavaScript
  truncates towards zero (the result has the sign of the dividend), which is \<open>smod\<close>, not
  \<open>mod\<close>. Console output is not modelled: no claim depends on it.
\<close>

subsection \<open>Data\<close>

text \<open>\<^verbatim>\<open>interface Chunk { size: number; offset: number }\<close>. The field \<^verbatim>\<open>size\<close>
  is written \<open>size'\<close>, since \<open>size\<close> is a constant of HOL.\<close>

record Chunk =
  size' :: int
  offset :: int

subsection \<open>Number to string, as a template literal prints an integer\<close>

definition digitChar :: "nat \<Rightarrow> char" where
  "digitChar d = char_of (48 + d)"

fun showNat :: "nat \<Rightarrow> string" where
  "showNat n = (if n < 10 then [digitChar n] else showNat (n div 10) @ [digitChar (n mod 10)])"

declare showNat.simps [simp del]

definition showInt :: "int \<Rightarrow> string" where
  "showInt k = (if k < 0 then CHR ''-'' # showNat (nat (- k)) else showNat (nat k))"

subsection \<open>formatChunk (lines 25-27)\<close>

definition formatChunk :: "Chunk \<Rightarrow> string" where
  "formatChunk chunk = showInt (offset chunk) @ ''-'' @ showInt (offset chunk + size' chunk)"

subsection \<open>getChunks (lines 29-70)\<close>

text \<open>
  The \<^verbatim>\<open>forEach\<close> over \<^verbatim>\<open>Array.from({ length: numberOfChunks - 1 })\<close> runs its body
  once per element; the body pushes one chunk and advances \<^verbatim>\<open>offset\<close>. The loop state is
  the pair of the array \<^verbatim>\<open>chunks\<close> and the variable \<^verbatim>\<open>offset\<close>.
\<close>

fun forEachPush :: "nat \<Rightarrow> int \<Rightarrow> Chunk list \<times> int \<Rightarrow> Chunk list \<times> int" where
  "forEachPush 0 chunkSize st = st"
| "forEachPush (Suc k) chunkSize (chunks, offs) =
     forEachPush k chunkSize
       (chunks @ [\<lparr>size' = chunkSize - 1, offset = offs + 1\<rparr>], offs + chunkSize)"

text \<open>
  \<^verbatim>\<open>Array.from({ length: l })\<close> clamps a negative length to 0, hence \<open>nat\<close>. The division
  of line 52 is exact (the dividend is a multiple of \<^verbatim>\<open>numberOfChunks\<close>, lemma
  \<open>chunkSize_exact\<close> below), so the quotient of the doubles is the integer quotient.
  For \<^verbatim>\<open>numberOfChunks = 0\<close> the source computes \<^verbatim>\<open>NaN\<close>, which \<^typ>\<open>int\<close> does not
  have: the model is the source for \<open>numberOfChunks \<noteq> 0\<close>.
\<close>

definition getChunks :: "int \<Rightarrow> int \<Rightarrow> int \<Rightarrow> Chunk list" where
  "getChunks contentLength numberOfChunks contentLengthLimit =
     (let contentLength1 =
            (if contentLength > contentLengthLimit then contentLengthLimit else contentLength);
          contentLength2 = contentLength1 - 1;
          bytesToRedistribute = contentLength2 smod numberOfChunks;
          chunkSize = (contentLength2 - bytesToRedistribute) div numberOfChunks;
          firstChunkSize = chunkSize + bytesToRedistribute;
          chunks0 = [];
          offset0 = 0;
          chunks1 = chunks0 @ [\<lparr>size' = firstChunkSize, offset = offset0\<rparr>];
          offset1 = offset0 + firstChunkSize
      in fst (forEachPush (nat (numberOfChunks - 1)) chunkSize (chunks1, offset1)))"

subsection \<open>acceptsRanges (lines 19-23)\<close>

text \<open>
  Response headers are a dictionary from (lower-case) header names to string values; a
  missing key reads as \<^verbatim>\<open>undefined\<close>, here \<open>None\<close>. The \<^verbatim>\<open>async\<close> wrapper only
  delays the boolean, which \<^verbatim>\<open>download\<close> awaits at once.
\<close>

definition acceptsRanges :: "(string \<rightharpoonup> string) \<Rightarrow> bool" where
  "acceptsRanges headers =
     (let acceptRangesHeader = headers ''accept-ranges''
      in \<not> (acceptRangesHeader = Some ''none'' \<or> acceptRangesHeader = None))"

subsection \<open>The network, requests and responses\<close>

type_synonym byte = "8 word"

text \<open>What a rejected promise or a \<^verbatim>\<open>throw\<close> carries: an error raised by axios (the
  transport), or \<^verbatim>\<open>Error(message)\<close> made by \<^verbatim>\<open>download\<close> itself.\<close>

datatype error = AxiosError string | Error string

record Response =
  status :: int
  data :: "byte list"

text \<open>The object \<^verbatim>\<open>{ chunk, response }\<close> of line 95.\<close>

record ChunkResponse =
  chunk :: Chunk
  response :: Response

text \<open>The requests made, in the order of the calls: \<open>HEAD url\<close> and
  \<open>GET url range\<close> (the value of the \<^verbatim>\<open>range\<close> header).\<close>

datatype request = HEAD string | GET string string

text \<open>
  The remote side. \<open>axiosHead url\<close> is the outcome of \<^verbatim>\<open>axios.head(url)\<close>: the response
  headers or a rejection. \<open>axiosGet i url range\<close> is the outcome of the \<open>i\<close>-th call (from 0)
  of \<^verbatim>\<open>axios.get\<close>; the index lets a server answer two equal requests differently.
\<close>

record network =
  axiosHead :: "string \<Rightarrow> error + (string \<rightharpoonup> string)"
  axiosGet :: "nat \<Rightarrow> string \<Rightarrow> string \<Rightarrow> error + Response"

text \<open>How a call of \<^verbatim>\<open>download\<close> ends: it returns a value, it throws, or its promise
  never settles (some request never completes). \<open>OutsideModel\<close> stands for the runs in
  which the source computes with \<^verbatim>\<open>NaN\<close>, which the integer model does not follow.\<close>

datatype 'a outcome = Returned 'a | Thrown error | Pending | OutsideModel

subsection \<open>String to number, for the \<^verbatim>\<open>content-length\<close> header\<close>

text \<open>
  Line 79 reads a header (a string, or \<^verbatim>\<open>undefined\<close>) and lines 34 and 45 use it as a
  number. The conversion is modelled for strings of decimal digits (the form of a
  \<^verbatim>\<open>Content-Length\<close> value; the empty string converts to 0); \<open>None\<close> stands for every
  other value, among them \<^verbatim>\<open>undefined\<close>, which converts to \<^verbatim>\<open>NaN\<close>.
\<close>

definition digitValue :: "char \<Rightarrow> nat option" where
  "digitValue ch =
     (let k = (of_char ch :: nat) in if 48 \<le> k \<and> k \<le> 57 then Some (k - 48) else None)"

fun parseDigits :: "nat \<Rightarrow> string \<Rightarrow> nat option" where
  "parseDigits acc [] = Some acc"
| "parseDigits acc (ch # cs) =
     (case digitValue ch of None \<Rightarrow> None | Some d \<Rightarrow> parseDigits (10 * acc + d) cs)"

definition toNumber :: "string option \<Rightarrow> int option" where
  "toNumber v = (case v of None \<Rightarrow> None | Some s \<Rightarrow> map_option int (parseDigits 0 s))"

subsection \<open>Printing an array of objects in a template literal\<close>

text \<open>
  \<^verbatim>\<open>`${xs}`\<close> on an array is \<^verbatim>\<open>xs.join(',')\<close>, and a plain object such as
  \<^verbatim>\<open>{ chunk, response }\<close> prints as \<^verbatim>\<open>[object Object]\<close>.
\<close>

definition objectToString :: "ChunkResponse \<Rightarrow> string" where
  "objectToString obj = ''[object Object]''"

fun join :: "string \<Rightarrow> string list \<Rightarrow> string" where
  "join sep [] = []"
| "join sep [s] = s"
| "join sep (s # t # ss) = s @ sep @ join sep (t # ss)"

definition arrayToString :: "ChunkResponse list \<Rightarrow> string" where
  "arrayToString xs = join '','' (map objectToString xs)"

subsection \<open>Promise.all\<close>

text \<open>
  \<open>promiseAll promises order slots\<close>: \<open>promises ! i\<close> is how the \<open>i\<close>-th promise settles
  (\<open>Inl\<close> a rejection), \<open>order\<close> lists the indices in the order in which the promises
  settle, and \<open>slots\<close> is the result array being filled. A fulfilment is stored at the
  index of its promise; the first rejection rejects the whole; when the settlements are
  used up the whole is fulfilled if every slot is filled and stays pending otherwise
  (\<open>None\<close>).
\<close>

fun promiseAll :: "(error + 'a) list \<Rightarrow> nat list \<Rightarrow> 'a option list \<Rightarrow> (error + 'a list) option" where
  "promiseAll promises [] slots = map_option Inr (those slots)"
| "promiseAll promises (i # order) slots =
     (if i < length promises then
        (case promises ! i of
           Inl e \<Rightarrow> Some (Inl e)
         | Inr v \<Rightarrow> promiseAll promises order (slots[i := Some v]))
      else promiseAll promises order slots)"

subsection \<open>download (lines 72-108)\<close>

definition rangeHeaderOf :: "Chunk \<Rightarrow> string" where
  "rangeHeaderOf c = ''bytes='' @ formatChunk c"

text \<open>
  Lines 84-96, \<^verbatim>\<open>chunks.map(async chunk => ...)\<close>: the callbacks run in array order,
  each up to its \<^verbatim>\<open>await\<close>, so the \<open>i\<close>-th call of \<^verbatim>\<open>axios.get\<close> is the one for chunk
  \<open>i\<close> and all calls are made before any response is looked at. The function returns
  the promises (as the way each settles) and the log of requests, extended.
\<close>

fun mapFetch ::
  "network \<Rightarrow> string \<Rightarrow> nat \<Rightarrow> Chunk list \<Rightarrow> request list \<Rightarrow>
     (error + ChunkResponse) list \<times> request list" where
  "mapFetch w url i [] log = ([], log)"
| "mapFetch w url i (c # chunks) log =
     (let rangeHeader = rangeHeaderOf c;
          promise = (case axiosGet w i url rangeHeader of
                       Inl e \<Rightarrow> Inl e
                     | Inr r \<Rightarrow> Inr \<lparr>chunk = c, response = r\<rparr>);
          (promises, log') = mapFetch w url (Suc i) chunks (log @ [GET url rangeHeader])
      in (promise # promises, log'))"

text \<open>
  Lines 84-96 as a whole, \<^verbatim>\<open>await Promise.all(chunks.map(...))\<close>: the requests are made,
  then the promises settle in the order \<open>order\<close>. \<open>None\<close>: the await never ends.
\<close>

definition awaitResponses ::
  "network \<Rightarrow> nat list \<Rightarrow> string \<Rightarrow> Chunk list \<Rightarrow> request list \<Rightarrow>
     (error + ChunkResponse list) option \<times> request list" where
  "awaitResponses w order url chunks log =
     (let (promises, log') = mapFetch w url 0 chunks log
      in (promiseAll promises order (replicate (length promises) None), log'))"

text \<open>
  \<open>download w order url numberOfChunks limit\<close> is the pair of how the call ends and of
  the requests it has made. \<open>order\<close> is the order in which the range requests complete.
\<close>

definition download ::
  "network \<Rightarrow> nat list \<Rightarrow> string \<Rightarrow> int \<Rightarrow> int \<Rightarrow> byte list outcome \<times> request list" where
  "download w order url numberOfChunks limit =
     (let log0 = [HEAD url] in
      case axiosHead w url of
        Inl e \<Rightarrow> (Thrown e, log0)
      | Inr headers \<Rightarrow>
          if \<not> acceptsRanges headers
          then (Thrown (Error (url @ '' does not support partial requests.'')), log0)
          else
            (case toNumber (headers ''content-length'') of
               None \<Rightarrow> (OutsideModel, log0)
             | Some contentLength \<Rightarrow>
                 (let chunks = getChunks contentLength numberOfChunks limit;
                      (settled, log1) = awaitResponses w order url chunks log0
                  in case settled of
                       None \<Rightarrow> (Pending, log1)
                     | Some (Inl e) \<Rightarrow> (Thrown e, log1)
                     | Some (Inr responses) \<Rightarrow>
                         (let invalidRespones =
                                filter (\<lambda>r. status (response r) \<noteq> 206) responses
                          in if length invalidRespones \<noteq> 0
                             then (Thrown (Error (''received invalid responses:\<newline> '' @
                                                   arrayToString invalidRespones)), log1)
                             else (Returned (concat (map (\<lambda>r. data (response r)) responses)),
                                   log1)))))"

subsection \<open>Vocabulary of the specification\<close>

text \<open>The last byte of a chunk, the set of bytes of a chunk (the inclusive interval from
  \<open>offset\<close> to \<open>offset + size\<close>, empty when \<open>size < 0\<close>), and the values the planner
  computes on the way: \<open>span\<close> is \<^verbatim>\<open>contentLength\<close> after line 45, \<open>remainder\<close> is
  \<^verbatim>\<open>bytesToRedistribute\<close> and \<open>baseSpan\<close> is \<^verbatim>\<open>chunkSize\<close>.\<close>

definition chunkEnd :: "Chunk \<Rightarrow> int" where
  "chunkEnd c = offset c + size' c"

definition interval :: "Chunk \<Rightarrow> int set" where
  "interval c = {offset c .. chunkEnd c}"

definition span :: "int \<Rightarrow> int \<Rightarrow> int" where
  "span T lim = min T lim - 1"

definition remainder :: "int \<Rightarrow> int \<Rightarrow> int \<Rightarrow> int" where
  "remainder T n lim = span T lim smod n"

definition baseSpan :: "int \<Rightarrow> int \<Rightarrow> int \<Rightarrow> int" where
  "baseSpan T n lim = (span T lim - remainder T n lim) div n"

text \<open>Reading a header value of the form \<^verbatim>\<open>bytes=<start>-<end>\<close> back: the digits up to
  the first \<^verbatim>\<open>-\<close> and the digits after it.\<close>

definition parseByteRange :: "string \<Rightarrow> (nat \<times> nat) option" where
  "parseByteRange s =
     (if take 6 s = ''bytes='' then
        (let body = drop 6 s;
             a = takeWhile (\<lambda>ch. ch \<noteq> CHR ''-'') body;
             b = drop (Suc (length a)) body
         in if a = [] \<or> b = [] then None
            else (case parseDigits 0 a of
                    None \<Rightarrow> None
                  | Some x \<Rightarrow> (case parseDigits 0 b of None \<Rightarrow> None | Some y \<Rightarrow> Some (x, y))))
      else None)"

text \<open>A server for the examples: fixed headers, and the \<open>i\<close>-th range request answered
  by \<open>answers i\<close>.\<close>

definition testServer :: "(string \<rightharpoonup> string) \<Rightarrow> (nat \<Rightarrow> error + Response) \<Rightarrow> network" where
  "testServer hs answers = \<lparr>axiosHead = (\<lambda>url. Inr hs), axiosGet = (\<lambda>i url range. answers i)\<rparr>"

section \<open>The planner\<close>

subsection \<open>The loop and the closed form of the plan\<close>

lemma forEachPush_closed:
  "fst (forEachPush k c (chunks, off)) =
     chunks @ map (\<lambda>j. \<lparr>size' = c - 1, offset = off + int j * c + 1\<rparr>) [0..<k]"
proof (induction k arbitrary: chunks off)
  case 0
  show ?case by simp
next
  case (Suc k)
  have "map (\<lambda>j. \<lparr>size' = c - 1, offset = off + int j * c + 1\<rparr>) [0..<Suc k] =
        \<lparr>size' = c - 1, offset = off + 1\<rparr> #
        map (\<lambda>j. \<lparr>size' = c - 1, offset = off + c + int j * c + 1\<rparr>) [0..<k]"
    by (simp add: map_upt_Suc algebra_simps del: upt_Suc)
  then show ?case using Suc.IH by simp
qed

text \<open>The dividend of line 52 is a multiple of the divisor: the division is exact.\<close>

lemma chunkSize_exact: "n dvd (s - s smod n)" for s n :: int
  by (simp add: minus_smod_eq_sdiv_mult)

lemma baseSpan_sdiv: "n \<noteq> 0 \<Longrightarrow> baseSpan T n lim = span T lim sdiv n"
  by (simp add: baseSpan_def remainder_def minus_smod_eq_sdiv_mult)

lemma span_split: "n \<noteq> 0 \<Longrightarrow> baseSpan T n lim * n + remainder T n lim = span T lim"
  by (simp add: baseSpan_sdiv remainder_def sdiv_mult_smod_eq)

lemma getChunks_closed:
  "getChunks T n lim =
     \<lparr>size' = baseSpan T n lim + remainder T n lim, offset = 0\<rparr> #
     map (\<lambda>j. \<lparr>size' = baseSpan T n lim - 1,
               offset = baseSpan T n lim + remainder T n lim + int j * baseSpan T n lim + 1\<rparr>)
       [0..<nat (n - 1)]"
  by (simp add: getChunks_def Let_def forEachPush_closed baseSpan_def remainder_def span_def min_def)

lemma length_getChunks: "length (getChunks T n lim) = Suc (nat (n - 1))"
  by (simp add: getChunks_closed)

lemma nth_getChunks_0:
  "getChunks T n lim ! 0 = \<lparr>size' = baseSpan T n lim + remainder T n lim, offset = 0\<rparr>"
  by (simp add: getChunks_closed)

lemma nth_getChunks_Suc:
  "j < nat (n - 1) \<Longrightarrow> getChunks T n lim ! Suc j =
     \<lparr>size' = baseSpan T n lim - 1,
      offset = baseSpan T n lim + remainder T n lim + int j * baseSpan T n lim + 1\<rparr>"
  by (simp add: getChunks_closed)

lemma sign_nonneg:
  assumes "0 < n" "0 \<le> span T lim"
  shows "0 \<le> remainder T n lim" "0 \<le> baseSpan T n lim" "remainder T n lim < n"
  using assms
  by (simp_all add: baseSpan_sdiv remainder_def signed_divide_int_def signed_modulo_int_def
      sgn_if pos_imp_zdiv_nonneg_iff)

lemma sign_neg:
  assumes "0 < n" "span T lim < 0"
  shows "remainder T n lim \<le> 0" "baseSpan T n lim \<le> 0"
  using assms
  by (simp_all add: baseSpan_sdiv remainder_def signed_divide_int_def signed_modulo_int_def
      sgn_if pos_imp_zdiv_nonneg_iff)

subsection \<open>Number of chunks\<close>

text \<open>
  Claim C10. For a positive \<open>numberOfChunks\<close> the plan has exactly \<open>numberOfChunks\<close>
  chunks, whatever the content length and the limit are (also when the effective length
  is smaller than the number of chunks).
\<close>

theorem getChunks_length: "0 < n \<Longrightarrow> length (getChunks T n lim) = nat n"
  by (simp add: length_getChunks)

theorem getChunks_length_witness:
  "(0::int) < 5 \<and> length (getChunks 3 5 100) = 5 \<and> length (getChunks 0 5 100) = 5"
  using getChunks_length [of 5 3 100] getChunks_length [of 5 0 100] by simp

subsection \<open>Bytes covered\<close>

text \<open>
  Claim C2. For a positive \<open>numberOfChunks\<close>, the sum of \<open>size + 1\<close> over the chunks of
  the plan is the effective length \<open>min contentLength contentLengthLimit\<close>; so when the
  content length exceeds the limit, the sum is the limit.
\<close>

theorem getChunks_sum_bytes:
  assumes "0 < n"
  shows "sum_list (map (\<lambda>c. size' c + 1) (getChunks T n lim)) = min T lim \<and>
         (lim < T \<longrightarrow> sum_list (map (\<lambda>c. size' c + 1) (getChunks T n lim)) = lim)"
proof -
  have "sum_list (map (\<lambda>c. size' c + 1) (getChunks T n lim)) =
        baseSpan T n lim + remainder T n lim + 1 + int (nat (n - 1)) * baseSpan T n lim"
    by (simp add: getChunks_closed comp_def sum_list_triv)
  also have "\<dots> = baseSpan T n lim * n + remainder T n lim + 1"
    using assms by (simp add: algebra_simps)
  also have "\<dots> = min T lim"
    using assms span_split [of n T lim] by (simp add: span_def)
  finally show ?thesis by simp
qed

theorem getChunks_sum_bytes_witness:
  "(0::int) < 4 \<and> (1000000::int) < 2000000 \<and>
   sum_list (map (\<lambda>c. size' c + 1) (getChunks 2000000 4 1000000)) = 1000000"
  using getChunks_sum_bytes [of 4 2000000 1000000] by simp

subsection \<open>Tiling\<close>

lemma baseSpan_div: "0 < n \<Longrightarrow> 0 \<le> span T lim \<Longrightarrow> baseSpan T n lim = span T lim div n"
  by (simp add: baseSpan_sdiv signed_divide_int_def sgn_if)

lemma baseSpan_pos_iff:
  assumes "0 < n" "0 \<le> span T lim"
  shows "0 < baseSpan T n lim \<longleftrightarrow> n \<le> span T lim"
  using assms by (simp add: baseSpan_div pos_imp_zdiv_pos_iff)

lemma first_size_neg:
  assumes "0 < n" "span T lim < 0"
  shows "baseSpan T n lim + remainder T n lim < 0"
proof -
  have c: "baseSpan T n lim \<le> 0" and r: "remainder T n lim \<le> 0"
    using sign_neg [OF assms] by simp_all
  have eq: "baseSpan T n lim * n + remainder T n lim = span T lim"
    using assms span_split [of n T lim] by simp
  show ?thesis
  proof (cases "baseSpan T n lim = 0")
    case True
    with eq assms show ?thesis by simp
  next
    case False
    with c r show ?thesis by simp
  qed
qed

lemma chunkEnd_0:
  "chunkEnd (getChunks T n lim ! 0) = baseSpan T n lim + remainder T n lim"
  by (simp add: nth_getChunks_0 chunkEnd_def)

lemma chunkEnd_Suc:
  "j < nat (n - 1) \<Longrightarrow>
   chunkEnd (getChunks T n lim ! Suc j) =
     baseSpan T n lim + remainder T n lim + int (Suc j) * baseSpan T n lim"
  by (simp add: nth_getChunks_Suc chunkEnd_def algebra_simps)

lemma offset_Suc:
  "j < nat (n - 1) \<Longrightarrow>
   offset (getChunks T n lim ! Suc j) =
     baseSpan T n lim + remainder T n lim + int j * baseSpan T n lim + 1"
  by (simp add: nth_getChunks_Suc)

lemma adjacent:
  assumes "Suc i < length (getChunks T n lim)"
  shows "offset (getChunks T n lim ! Suc i) = chunkEnd (getChunks T n lim ! i) + 1"
proof (cases i)
  case 0
  with assms show ?thesis
    by (simp add: length_getChunks offset_Suc chunkEnd_0)
next
  case (Suc j)
  with assms show ?thesis
    by (simp add: length_getChunks offset_Suc chunkEnd_Suc)
qed

lemma hd_getChunks: "offset (hd (getChunks T n lim)) = 0"
  by (simp add: getChunks_closed)

lemma last_getChunks:
  assumes "0 < n"
  shows "chunkEnd (last (getChunks T n lim)) = min T lim - 1"
proof -
  have eq: "baseSpan T n lim * n + remainder T n lim = span T lim"
    using assms span_split [of n T lim] by simp
  have "getChunks T n lim \<noteq> []"
    by (simp add: getChunks_closed)
  then have l: "last (getChunks T n lim) = getChunks T n lim ! nat (n - 1)"
    by (simp add: last_conv_nth length_getChunks)
  show ?thesis
  proof (cases "nat (n - 1)")
    case 0
    with assms have "n = 1" by simp
    with l eq show ?thesis by (simp add: chunkEnd_0 span_def)
  next
    case (Suc j)
    then have "n = int j + 2" by linarith
    with eq have "baseSpan T n lim * (int j + 2) + remainder T n lim = span T lim"
      by simp
    then have "baseSpan T n lim + remainder T n lim + int (Suc j) * baseSpan T n lim =
               min T lim - 1"
      by (simp add: span_def algebra_simps)
    with l Suc show ?thesis
      by (simp add: chunkEnd_Suc)
  qed
qed

lemma apart:
  assumes "0 < n" "0 \<le> span T lim" "i < j" "j < length (getChunks T n lim)"
  shows "chunkEnd (getChunks T n lim ! i) < offset (getChunks T n lim ! j)"
proof -
  from assms obtain j' where j: "j = Suc j'" by (cases j) simp_all
  have c: "0 \<le> baseSpan T n lim" using sign_nonneg(2) [OF assms(1,2)] .
  have jn: "j' < nat (n - 1)" using assms(4) j by (simp add: length_getChunks)
  show ?thesis
  proof (cases i)
    case 0
    have "0 \<le> int j' * baseSpan T n lim" using c by simp
    with 0 j jn show ?thesis by (simp add: chunkEnd_0 offset_Suc)
  next
    case (Suc i')
    with assms(3) j have "int (Suc i') \<le> int j'" by simp
    then have "int (Suc i') * baseSpan T n lim \<le> int j' * baseSpan T n lim"
      using c by (rule mult_right_mono)
    moreover have "i' < nat (n - 1)" using Suc assms(3) j jn by simp
    ultimately show ?thesis using Suc j jn by (simp add: chunkEnd_Suc offset_Suc)
  qed
qed

lemma interval_empty: "size' c < 0 \<Longrightarrow> interval c = {}"
  by (simp add: interval_def chunkEnd_def)

lemma negative_sizes:
  assumes "0 < n" "span T lim < 0" "c \<in> set (getChunks T n lim)"
  shows "size' c < 0"
  using assms first_size_neg [OF assms(1,2)] sign_neg(2) [OF assms(1,2)]
  by (auto simp add: getChunks_closed)

lemma union_rest:
  assumes "0 \<le> c"
  shows "(\<Union>j\<in>{0..<k}. {f + int j * c + 1 .. f + int (Suc j) * c}) = {f + 1 .. f + int k * c}"
proof (induction k)
  case 0
  show ?case by simp
next
  case (Suc k)
  have glue: "{f + 1 .. f + m} \<union> {f + m + 1 .. f + (m + c)} = {f + 1 .. f + (m + c)}"
    if "0 \<le> m" for m
    using that assms by auto
  have "0 \<le> int k * c" using assms by simp
  from glue [OF this] have "{f + 1 .. f + int k * c} \<union> {f + int k * c + 1 .. f + int (Suc k) * c} =
        {f + 1 .. f + int (Suc k) * c}"
    by (simp add: algebra_simps)
  with Suc.IH show ?case by (simp add: atLeast0_lessThan_Suc Un_commute)
qed

lemma union_getChunks:
  assumes "0 < n"
  shows "(\<Union>c\<in>set (getChunks T n lim). interval c) = {0 .. min T lim - 1}"
proof (cases "0 \<le> span T lim")
  case True
  define f where "f = baseSpan T n lim + remainder T n lim"
  define c where "c = baseSpan T n lim"
  define k where "k = nat (n - 1)"
  have c0: "0 \<le> c" and f0: "0 \<le> f"
    using sign_nonneg [OF assms True] by (simp_all add: c_def f_def)
  have eq: "f + int k * c = span T lim"
    using assms span_split [of n T lim] by (simp add: f_def c_def k_def algebra_simps)
  have "(\<Union>x\<in>set (getChunks T n lim). interval x) =
        {0 .. f} \<union> (\<Union>j\<in>{0..<k}. {f + int j * c + 1 .. f + int (Suc j) * c})"
    by (simp add: getChunks_closed interval_def chunkEnd_def f_def c_def k_def algebra_simps)
  also have "\<dots> = {0 .. f} \<union> {f + 1 .. f + int k * c}"
    using c0 by (simp only: union_rest)
  also have "\<dots> = {0 .. f + int k * c}"
  proof -
    have "0 \<le> int k * c" using c0 by simp
    with f0 show ?thesis by auto
  qed
  finally show ?thesis using eq by (simp add: span_def)
next
  case False
  then have neg: "span T lim < 0" by simp
  have "(\<Union>x\<in>set (getChunks T n lim). interval x) = {}"
    using negative_sizes [OF assms neg] by (simp add: interval_empty)
  with neg show ?thesis by (simp add: span_def)
qed

lemma disjoint_lt:
  assumes "0 < n" "i < j" "j < length (getChunks T n lim)"
  shows "interval (getChunks T n lim ! i) \<inter> interval (getChunks T n lim ! j) = {}"
proof (cases "0 \<le> span T lim")
  case True
  from apart [OF assms(1) True assms(2,3)] show ?thesis
    by (auto simp add: interval_def)
next
  case False
  then have neg: "span T lim < 0" by simp
  have "getChunks T n lim ! j \<in> set (getChunks T n lim)" using assms(3) by simp
  from negative_sizes [OF assms(1) neg this] show ?thesis by (simp add: interval_empty)
qed

text \<open>
  Claim C1. For a positive \<open>numberOfChunks\<close> the plan, in the order returned, tiles
  the bytes \<open>0\<close> to \<open>effectiveLength - 1\<close>, where \<open>effectiveLength\<close> is
  \<open>min contentLength contentLengthLimit\<close>: the first chunk starts at 0, every chunk
  starts one byte after the end of the chunk before it (no gap), the last chunk ends at
  \<open>effectiveLength - 1\<close>, the union of the inclusive intervals
  \<open>[offset, offset + size]\<close> is the whole interval, and two different chunks share no
  byte (no overlap). When \<open>effectiveLength \<le> numberOfChunks\<close> the chunks after the
  first have \<open>size = -1\<close>: their intervals are empty.
\<close>

theorem getChunks_tiles:
  assumes "0 < n"
  shows "offset (hd (getChunks T n lim)) = 0 \<and>
         chunkEnd (last (getChunks T n lim)) = min T lim - 1 \<and>
         (\<forall>i. Suc i < length (getChunks T n lim) \<longrightarrow>
              offset (getChunks T n lim ! Suc i) = chunkEnd (getChunks T n lim ! i) + 1) \<and>
         (\<Union>c\<in>set (getChunks T n lim). interval c) = {0 .. min T lim - 1} \<and>
         (\<forall>i j. i < length (getChunks T n lim) \<and> j < length (getChunks T n lim) \<and> i \<noteq> j \<longrightarrow>
              interval (getChunks T n lim ! i) \<inter> interval (getChunks T n lim ! j) = {})"
proof -
  have "interval (getChunks T n lim ! i) \<inter> interval (getChunks T n lim ! j) = {}"
    if "i < length (getChunks T n lim)" "j < length (getChunks T n lim)" "i \<noteq> j" for i j
  proof (cases "i < j")
    case True
    then show ?thesis using disjoint_lt [OF assms _ that(2)] by simp
  next
    case False
    with that(3) have "j < i" by simp
    then show ?thesis using disjoint_lt [OF assms _ that(1), of j] by (simp add: Int_commute)
  qed
  then have disjoint:
    "\<forall>i j. i < length (getChunks T n lim) \<and> j < length (getChunks T n lim) \<and> i \<noteq> j \<longrightarrow>
       interval (getChunks T n lim ! i) \<inter> interval (getChunks T n lim ! j) = {}"
    by simp
  have chain:
    "\<forall>i. Suc i < length (getChunks T n lim) \<longrightarrow>
       offset (getChunks T n lim ! Suc i) = chunkEnd (getChunks T n lim ! i) + 1"
    using adjacent by simp
  from hd_getChunks last_getChunks [OF assms] chain union_getChunks [OF assms] disjoint
  show ?thesis by (intro conjI)
qed

theorem getChunks_tiles_witness:
  "(0::int) < 4 \<and>
   (\<Union>c\<in>set (getChunks 1000 4 10000). interval c) = {0 .. 999} \<and>
   chunkEnd (last (getChunks 1000 4 10000)) = 999 \<and>
   (\<Union>c\<in>set (getChunks 3 4 10000). interval c) = {0 .. 2}"
  using getChunks_tiles [of 4 1000 10000] getChunks_tiles [of 4 3 10000] by simp

subsection \<open>Offsets\<close>

lemma offsets_getChunks:
  "map offset (getChunks T n lim) =
     0 # map (\<lambda>j. baseSpan T n lim + remainder T n lim + int j * baseSpan T n lim + 1)
           [0..<nat (n - 1)]"
  by (simp add: getChunks_closed comp_def)

lemma increasing_rest:
  "sorted_wrt (<) (map (\<lambda>j. f + int j * c + 1) [0..<k]) \<longleftrightarrow> k \<le> 1 \<or> 0 < c"
proof
  assume s: "sorted_wrt (<) (map (\<lambda>j. f + int j * c + 1) [0..<k])"
  show "k \<le> 1 \<or> 0 < c"
  proof (cases "k \<le> 1")
    case True
    then show ?thesis by simp
  next
    case False
    then have k: "1 < k" by simp
    from sorted_wrt_nth_less [OF s, of 0 1] k
    have "f + int 0 * c + 1 < f + int 1 * c + 1" by simp
    then show ?thesis by simp
  qed
next
  assume "k \<le> 1 \<or> 0 < c"
  then show "sorted_wrt (<) (map (\<lambda>j. f + int j * c + 1) [0..<k])"
  proof
    assume "k \<le> 1"
    then have "k = 0 \<or> k = 1" by linarith
    then show ?thesis by auto
  next
    assume c: "0 < c"
    have "f + int i * c + 1 < f + int j * c + 1" if "i < j" for i j
    proof -
      from that have "int i < int j" by simp
      then have "int i * c < int j * c" using c by (rule mult_strict_right_mono)
      then show ?thesis by linarith
    qed
    then show ?thesis
      by (simp add: sorted_wrt_iff_nth_less)
  qed
qed

lemma increasing_offsets:
  "sorted_wrt (<) (0 # map (\<lambda>j. f + int j * c + 1) [0..<k]) \<longleftrightarrow>
     k = 0 \<or> (0 \<le> f \<and> (k = 1 \<or> 0 < c))"
proof (cases "k = 0")
  case True
  then show ?thesis by simp
next
  case False
  have head: "(\<forall>j\<in>{0..<k}. 0 < f + int j * c + 1) \<longleftrightarrow> 0 \<le> f"
    if "k = 1 \<or> 0 < c"
  proof
    assume "\<forall>j\<in>{0..<k}. 0 < f + int j * c + 1"
    moreover have "0 \<in> {0..<k}" using False by simp
    ultimately have "0 < f + int 0 * c + 1" by (rule bspec)
    then show "0 \<le> f" by simp
  next
    assume f: "0 \<le> f"
    show "\<forall>j\<in>{0..<k}. 0 < f + int j * c + 1"
    proof
      fix j assume j: "j \<in> {0..<k}"
      from that have "0 \<le> int j * c"
      proof
        assume "k = 1" with j show ?thesis by simp
      next
        assume "0 < c" then show ?thesis by simp
      qed
      with f show "0 < f + int j * c + 1" by simp
    qed
  qed
  have "sorted_wrt (<) (0 # map (\<lambda>j. f + int j * c + 1) [0..<k]) \<longleftrightarrow>
        (\<forall>j\<in>{0..<k}. 0 < f + int j * c + 1) \<and> (k \<le> 1 \<or> 0 < c)"
    by (simp add: increasing_rest del: upt_Suc)
  also have "\<dots> \<longleftrightarrow> (\<forall>j\<in>{0..<k}. 0 < f + int j * c + 1) \<and> (k = 1 \<or> 0 < c)"
    using False by auto
  also have "\<dots> \<longleftrightarrow> 0 \<le> f \<and> (k = 1 \<or> 0 < c)"
    using head by blast
  finally show ?thesis using False by simp
qed

text \<open>
  Where the offsets increase. For a positive \<open>numberOfChunks\<close> the first chunk has
  offset 0, and the offsets are strictly increasing exactly when \<open>numberOfChunks = 1\<close>,
  or \<open>numberOfChunks = 2\<close> and the effective length is at least 1, or the effective
  length is greater than \<open>numberOfChunks\<close>.
\<close>

lemma getChunks_offsets_increasing:
  assumes "0 < n"
  shows "offset (hd (getChunks T n lim)) = 0 \<and>
         (sorted_wrt (<) (map offset (getChunks T n lim)) \<longleftrightarrow>
            n = 1 \<or> (n = 2 \<and> 1 \<le> min T lim) \<or> n < min T lim)"
proof -
  define f where "f = baseSpan T n lim + remainder T n lim"
  define c where "c = baseSpan T n lim"
  define k where "k = nat (n - 1)"
  have k0: "k = 0 \<longleftrightarrow> n = 1" and k1: "k = 1 \<longleftrightarrow> n = 2"
    using assms by (auto simp add: k_def)
  have f0: "0 \<le> f \<longleftrightarrow> 1 \<le> min T lim"
  proof (cases "0 \<le> span T lim")
    case True
    then have "1 \<le> min T lim" unfolding span_def by linarith
    with sign_nonneg(1,2) [OF assms True] show ?thesis unfolding f_def by linarith
  next
    case False
    then have neg: "span T lim < 0" by simp
    then have "\<not> 1 \<le> min T lim" unfolding span_def by linarith
    with first_size_neg [OF assms neg] show ?thesis unfolding f_def by linarith
  qed
  have c0: "0 < c \<longleftrightarrow> n < min T lim" if "1 \<le> min T lim"
  proof -
    from that have "0 \<le> span T lim" unfolding span_def by linarith
    from baseSpan_pos_iff [OF assms this] show ?thesis unfolding c_def span_def by linarith
  qed
  have n1: "1 \<le> min T lim" if "n < min T lim"
    using that assms by linarith
  have "sorted_wrt (<) (map offset (getChunks T n lim)) \<longleftrightarrow>
        k = 0 \<or> (0 \<le> f \<and> (k = 1 \<or> 0 < c))"
    using increasing_offsets [of f c k] by (simp only: offsets_getChunks f_def c_def k_def)
  also have "\<dots> \<longleftrightarrow> n = 1 \<or> (n = 2 \<and> 1 \<le> min T lim) \<or> n < min T lim"
    unfolding k0 k1 f0 using c0 n1 by blast
  finally show ?thesis using hd_getChunks by simp
qed

lemma getChunks_offsets_increasing_example:
  "sorted_wrt (<) (map offset (getChunks 1000 4 10000)) \<and>
   \<not> sorted_wrt (<) (map offset (getChunks 4 4 10000))"
  using getChunks_offsets_increasing [of 4 1000 10000] getChunks_offsets_increasing [of 4 4 10000]
  by simp

text \<open>
  Claim C3, at an input where it fails. The first offset is 0 (lemma \<open>hd_getChunks\<close>),
  but the offsets are not strictly increasing for every positive \<open>numberOfChunks\<close>:
  the loop of lines 61-67 does not treat \<^verbatim>\<open>chunkSize = 0\<close>. For a resource of 3 bytes,
  4 chunks and the limit of 4 MB the chunks after the first have size -1 and all start at
  offset 3; their ranges print as 3-2.
\<close>

theorem getChunks_offsets_repeat:
  "getChunks 3 4 4194304 =
     [\<lparr>size' = 2, offset = 0\<rparr>, \<lparr>size' = - 1, offset = 3\<rparr>,
      \<lparr>size' = - 1, offset = 3\<rparr>, \<lparr>size' = - 1, offset = 3\<rparr>] \<and>
   map formatChunk (getChunks 3 4 4194304) = [''0-2'', ''3-2'', ''3-2'', ''3-2''] \<and>
   \<not> sorted_wrt (<) (map offset (getChunks 3 4 4194304))"
  by code_simp

subsection \<open>The plans of the two scenarios\<close>

text \<open>
  Claim C4. For \<open>contentLength = 1000\<close>, 4 chunks and limit 10000 the plan is
  \<open>{offset 0, size 252}\<close>, \<open>{offset 253, size 248}\<close>, \<open>{offset 502, size 248}\<close>,
  \<open>{offset 751, size 248}\<close>, printed by \<open>formatChunk\<close> as 0-252, 253-501, 502-750,
  751-999; for \<open>contentLength = 100\<close>, 3 chunks and limit 1000 the ranges are 0-33,
  34-66, 67-99.
\<close>

theorem getChunks_examples:
  "getChunks 1000 4 10000 =
     [\<lparr>size' = 252, offset = 0\<rparr>, \<lparr>size' = 248, offset = 253\<rparr>,
      \<lparr>size' = 248, offset = 502\<rparr>, \<lparr>size' = 248, offset = 751\<rparr>] \<and>
   map formatChunk (getChunks 1000 4 10000) = [''0-252'', ''253-501'', ''502-750'', ''751-999''] \<and>
   map formatChunk (getChunks 100 3 1000) = [''0-33'', ''34-66'', ''67-99'']"
  by code_simp

section \<open>The download\<close>

subsection \<open>Requests made and promises settled\<close>

lemma mapFetch_log:
  "snd (mapFetch w url i chunks log) = log @ map (\<lambda>c. GET url (rangeHeaderOf c)) chunks"
  by (induction chunks arbitrary: i log) (simp_all add: Let_def case_prod_beta)

lemma mapFetch_length: "length (fst (mapFetch w url i chunks log)) = length chunks"
  by (induction chunks arbitrary: i log) (simp_all add: Let_def case_prod_beta)

lemma mapFetch_fulfilled:
  assumes "\<forall>j<length chunks. axiosGet w (i + j) url (rangeHeaderOf (chunks ! j)) = Inr (r (i + j))"
  shows "fst (mapFetch w url i chunks log) =
         map Inr (map (\<lambda>j. \<lparr>chunk = chunks ! j, response = r (i + j)\<rparr>) [0..<length chunks])"
  using assms
proof (induction chunks arbitrary: i log)
  case Nil
  show ?case by simp
next
  case (Cons c chunks)
  have here: "axiosGet w i url (rangeHeaderOf c) = Inr (r i)"
    using Cons.prems by (auto dest: spec [where x = 0])
  have rest: "\<forall>j<length chunks. axiosGet w (Suc i + j) url (rangeHeaderOf (chunks ! j)) = Inr (r (Suc i + j))"
  proof (intro allI impI)
    fix j assume "j < length chunks"
    then have "Suc j < length (c # chunks)" by simp
    from Cons.prems [rule_format, OF this]
    have "axiosGet w (i + Suc j) url (rangeHeaderOf ((c # chunks) ! Suc j)) = Inr (r (i + Suc j))" .
    then show "axiosGet w (Suc i + j) url (rangeHeaderOf (chunks ! j)) = Inr (r (Suc i + j))"
      by simp
  qed
  have "map (\<lambda>j. \<lparr>chunk = (c # chunks) ! j, response = r (i + j)\<rparr>) [0..<length (c # chunks)] =
        \<lparr>chunk = c, response = r i\<rparr> #
        map (\<lambda>j. \<lparr>chunk = chunks ! j, response = r (Suc i + j)\<rparr>) [0..<length chunks]"
    by (simp add: map_upt_Suc del: upt_Suc)
  with Cons.IH [OF rest, of "log @ [GET url (rangeHeaderOf c)]"] here show ?case
    by (simp add: Let_def case_prod_beta)
qed

lemma those_map_Some: "those (map Some vs) = Some vs"
  by (induction vs) simp_all

lemma promiseAll_fulfilled:
  assumes "length slots = length vs"
    and "\<forall>i<length vs. slots ! i = None \<or> slots ! i = Some (vs ! i)"
    and "\<forall>i<length vs. slots ! i \<noteq> None \<or> i \<in> set order"
  shows "promiseAll (map Inr vs) order slots = Some (Inr vs)"
  using assms
proof (induction order arbitrary: slots)
  case Nil
  have "slots = map Some vs"
  proof (rule nth_equalityI)
    show "length slots = length (map Some vs)" using Nil.prems(1) by simp
  next
    fix i assume "i < length slots"
    then have i: "i < length vs" using Nil.prems(1) by simp
    from Nil.prems(3) [rule_format, OF i] have "slots ! i \<noteq> None" by simp
    with Nil.prems(2) [rule_format, OF i] have "slots ! i = Some (vs ! i)" by simp
    with i show "slots ! i = map Some vs ! i" by simp
  qed
  then show ?case by (simp add: those_map_Some)
next
  case (Cons i order)
  show ?case
  proof (cases "i < length vs")
    case True
    let ?slots = "slots[i := Some (vs ! i)]"
    have 1: "length ?slots = length vs" using Cons.prems(1) by simp
    have 2: "\<forall>j<length vs. ?slots ! j = None \<or> ?slots ! j = Some (vs ! j)"
    proof (intro allI impI)
      fix j assume j: "j < length vs"
      show "?slots ! j = None \<or> ?slots ! j = Some (vs ! j)"
      proof (cases "j = i")
        case True
        with j Cons.prems(1) show ?thesis by simp
      next
        case False
        then have "?slots ! j = slots ! j" by simp
        with Cons.prems(2) [rule_format, OF j] show ?thesis by simp
      qed
    qed
    have 3: "\<forall>j<length vs. ?slots ! j \<noteq> None \<or> j \<in> set order"
    proof (intro allI impI)
      fix j assume j: "j < length vs"
      show "?slots ! j \<noteq> None \<or> j \<in> set order"
      proof (cases "j = i")
        case True
        with j Cons.prems(1) show ?thesis by simp
      next
        case False
        then have same: "?slots ! j = slots ! j" by simp
        from Cons.prems(3) [rule_format, OF j] False same show ?thesis by auto
      qed
    qed
    have "promiseAll (map Inr vs) (i # order) slots = promiseAll (map Inr vs) order ?slots"
      using True by simp
    with Cons.IH [OF 1 2 3] show ?thesis by simp
  next
    case False
    have 3: "\<forall>j<length vs. slots ! j \<noteq> None \<or> j \<in> set order"
    proof (intro allI impI)
      fix j assume j: "j < length vs"
      with False have "j \<noteq> i" by auto
      with Cons.prems(3) [rule_format, OF j] show "slots ! j \<noteq> None \<or> j \<in> set order"
        by auto
    qed
    have "promiseAll (map Inr vs) (i # order) slots = promiseAll (map Inr vs) order slots"
      using False by simp
    with Cons.IH [OF Cons.prems(1,2) 3] show ?thesis by simp
  qed
qed

lemma awaitResponses_log:
  "snd (awaitResponses w order url chunks log) = log @ map (\<lambda>c. GET url (rangeHeaderOf c)) chunks"
  using mapFetch_log [of w url 0 chunks log]
  by (simp add: awaitResponses_def case_prod_beta)

lemma awaitResponses_fulfilled:
  assumes "\<forall>i<length chunks. axiosGet w i url (rangeHeaderOf (chunks ! i)) = Inr (r i)"
    and "{0..<length chunks} \<subseteq> set order"
  shows "fst (awaitResponses w order url chunks log) =
         Some (Inr (map (\<lambda>i. \<lparr>chunk = chunks ! i, response = r i\<rparr>) [0..<length chunks]))"
proof -
  let ?vs = "map (\<lambda>i. \<lparr>chunk = chunks ! i, response = r i\<rparr>) [0..<length chunks]"
  have p: "fst (mapFetch w url 0 chunks log) = map Inr ?vs"
    using mapFetch_fulfilled [of chunks w 0 url r log] assms(1) by simp
  have "promiseAll (map Inr ?vs) order (replicate (length chunks) None) = Some (Inr ?vs)"
    using assms(2) by (intro promiseAll_fulfilled) auto
  with p show ?thesis
    by (simp add: awaitResponses_def case_prod_beta)
qed

subsection \<open>The capability check\<close>

text \<open>
  Claim C5. For every header map, \<open>acceptsRanges\<close> is false exactly when the header
  \<^verbatim>\<open>accept-ranges\<close> is absent or is the string \<^verbatim>\<open>none\<close>, and true for every other
  value of it.
\<close>

theorem acceptsRanges_iff:
  "(\<not> acceptsRanges headers \<longleftrightarrow>
      headers ''accept-ranges'' = None \<or> headers ''accept-ranges'' = Some ''none'') \<and>
   (\<forall>v. headers ''accept-ranges'' = Some v \<and> v \<noteq> ''none'' \<longrightarrow> acceptsRanges headers)"
  by (auto simp add: acceptsRanges_def)

theorem acceptsRanges_iff_witness:
  "acceptsRanges [''accept-ranges'' \<mapsto> ''bytes''] \<and>
   \<not> acceptsRanges [''accept-ranges'' \<mapsto> ''none''] \<and>
   \<not> acceptsRanges [''content-length'' \<mapsto> ''1000'']"
  using acceptsRanges_iff [of "[''accept-ranges'' \<mapsto> ''bytes'']"]
    acceptsRanges_iff [of "[''accept-ranges'' \<mapsto> ''none'']"]
    acceptsRanges_iff [of "[''content-length'' \<mapsto> ''1000'']"]
  by simp

text \<open>
  Claim C6. When the probed server does not accept ranges, \<open>download\<close> throws the error
  "does not support partial requests" and the only request it has made is the one
  \<open>HEAD\<close>: no range request and no whole-file request follows.
\<close>

theorem download_unsupported:
  assumes "axiosHead w url = Inr headers" and "\<not> acceptsRanges headers"
  shows "download w order url numberOfChunks limit =
           (Thrown (Error (url @ '' does not support partial requests.'')), [HEAD url])"
  using assms by (simp add: download_def)

theorem download_unsupported_witness:
  "download (testServer [''accept-ranges'' \<mapsto> ''none'', ''content-length'' \<mapsto> ''1000'']
              (\<lambda>i. Inr \<lparr>status = 206, data = []\<rparr>)) [0, 1] ''http://h/f'' 2 4194304 =
     (Thrown (Error ''http://h/f does not support partial requests.''), [HEAD ''http://h/f''])"
proof -
  let ?hs = "[''accept-ranges'' \<mapsto> ''none'', ''content-length'' \<mapsto> ''1000'']"
  let ?w = "testServer ?hs (\<lambda>i. Inr \<lparr>status = 206, data = []\<rparr>)"
  have 1: "axiosHead ?w ''http://h/f'' = Inr ?hs" by (simp add: testServer_def)
  have 2: "\<not> acceptsRanges ?hs" by (simp add: acceptsRanges_def)
  from download_unsupported [OF 1 2] show ?thesis by simp
qed

subsection \<open>The range header\<close>

lemma digitValue_digitChar: "d < 10 \<Longrightarrow> digitValue (digitChar d) = Some d"
  by (simp add: digitValue_def digitChar_def Let_def)

lemma of_char_digitChar: "d < 10 \<Longrightarrow> (of_char (digitChar d) :: nat) = 48 + d"
  by (simp add: digitChar_def)

lemma digitChar_not_dash: "d < 10 \<Longrightarrow> digitChar d \<noteq> CHR ''-''"
proof
  assume d: "d < 10" and "digitChar d = CHR ''-''"
  then have "(of_char (digitChar d) :: nat) = of_char CHR ''-''" by simp
  with d show False by (simp add: of_char_digitChar)
qed

lemma parseDigits_append:
  "parseDigits acc (xs @ ys) =
     (case parseDigits acc xs of None \<Rightarrow> None | Some v \<Rightarrow> parseDigits v ys)"
  by (induction xs arbitrary: acc) (simp_all split: option.splits)

lemma parseDigits_showNat: "parseDigits 0 (showNat n) = Some n"
proof (induction n rule: showNat.induct)
  case (1 n)
  show ?case
  proof (cases "n < 10")
    case True
    then show ?thesis
      by (simp add: showNat.simps [of n] digitValue_digitChar)
  next
    case False
    have "n mod 10 < 10" by simp
    with False 1 show ?thesis
      by (simp add: showNat.simps [of n] parseDigits_append digitValue_digitChar)
  qed
qed

lemma showNat_no_dash: "CHR ''-'' \<notin> set (showNat n)"
proof (induction n rule: showNat.induct)
  case (1 n)
  show ?case
  proof (cases "n < 10")
    case True
    then show ?thesis
      using digitChar_not_dash [of n] by (auto simp add: showNat.simps [of n])
  next
    case False
    have "n mod 10 < 10" by simp
    from digitChar_not_dash [OF this] False 1 show ?thesis
      by (auto simp add: showNat.simps [of n])
  qed
qed

lemma showNat_nonempty: "showNat n \<noteq> []"
  by (simp add: showNat.simps [of n])

lemma parseByteRange_show:
  "parseByteRange (''bytes='' @ showNat a @ ''-'' @ showNat b) = Some (a, b)"
proof -
  have "x \<noteq> CHR ''-''" if "x \<in> set (showNat a)" for x
    using that showNat_no_dash [of a] by auto
  then have "takeWhile (\<lambda>ch. ch \<noteq> CHR ''-'') (showNat a @ CHR ''-'' # showNat b) =
             showNat a @ takeWhile (\<lambda>ch. ch \<noteq> CHR ''-'') (CHR ''-'' # showNat b)"
    by (rule takeWhile_append2)
  then have tw: "takeWhile (\<lambda>ch. ch \<noteq> CHR ''-'') (showNat a @ CHR ''-'' # showNat b) = showNat a"
    by simp
  show ?thesis
    by (simp add: parseByteRange_def Let_def tw showNat_nonempty parseDigits_showNat)
qed

lemma rangeHeaderOf_parse:
  assumes "0 \<le> offset c" "0 \<le> offset c + size' c"
  shows "parseByteRange (rangeHeaderOf c) = Some (nat (offset c), nat (offset c + size' c))"
  using assms parseByteRange_show [of "nat (offset c)" "nat (offset c + size' c)"]
  by (simp add: rangeHeaderOf_def formatChunk_def showInt_def)

lemma download_log:
  assumes "axiosHead w url = Inr headers" and "acceptsRanges headers"
    and "toNumber (headers ''content-length'') = Some L"
  shows "snd (download w order url n limit) =
         HEAD url # map (\<lambda>c. GET url (rangeHeaderOf c)) (getChunks L n limit)"
  using assms awaitResponses_log [of w order url "getChunks L n limit" "[HEAD url]"]
  by (simp add: download_def Let_def case_prod_beta split: option.splits sum.splits)

text \<open>
  Claim C8. When the probe succeeds, the requests made after the \<open>HEAD\<close> are, chunk by
  chunk in the order of the plan, a \<open>GET\<close> whose range header is \<^verbatim>\<open>bytes=\<close> followed by
  \<open>offset\<close>, a dash and \<open>offset + size\<close>, both in decimal; and such a header of a chunk
  with non-negative ends reads back as the pair of \<open>offset\<close> and \<open>offset + size\<close>.
\<close>

theorem download_range_headers:
  assumes "axiosHead w url = Inr headers" and "acceptsRanges headers"
    and "toNumber (headers ''content-length'') = Some L"
  shows "snd (download w order url n limit) =
           HEAD url #
           map (\<lambda>c. GET url (''bytes='' @ showInt (offset c) @ ''-'' @ showInt (offset c + size' c)))
             (getChunks L n limit) \<and>
         (\<forall>c. 0 \<le> offset c \<and> 0 \<le> offset c + size' c \<longrightarrow>
              parseByteRange (rangeHeaderOf c) = Some (nat (offset c), nat (offset c + size' c)))"
proof -
  have "rangeHeaderOf c = ''bytes='' @ showInt (offset c) @ ''-'' @ showInt (offset c + size' c)" for c
    by (simp add: rangeHeaderOf_def formatChunk_def)
  with download_log [OF assms] rangeHeaderOf_parse show ?thesis
    by simp
qed

theorem download_range_headers_witness:
  "snd (download (testServer [''accept-ranges'' \<mapsto> ''bytes'', ''content-length'' \<mapsto> ''1000'']
                    (\<lambda>i. Inr \<lparr>status = 206, data = []\<rparr>)) [0, 1, 2, 3] ''http://h/f'' 4 10000) =
     [HEAD ''http://h/f'', GET ''http://h/f'' ''bytes=0-252'', GET ''http://h/f'' ''bytes=253-501'',
      GET ''http://h/f'' ''bytes=502-750'', GET ''http://h/f'' ''bytes=751-999''] \<and>
   parseByteRange (rangeHeaderOf \<lparr>size' = 248, offset = 253\<rparr>) = Some (253, 501)"
proof -
  let ?hs = "[''accept-ranges'' \<mapsto> ''bytes'', ''content-length'' \<mapsto> ''1000'']"
  let ?w = "testServer ?hs (\<lambda>i. Inr \<lparr>status = 206, data = []\<rparr>)"
  have 1: "axiosHead ?w ''http://h/f'' = Inr ?hs" by (simp add: testServer_def)
  have 2: "acceptsRanges ?hs" by (simp add: acceptsRanges_def)
  have 3: "toNumber (?hs ''content-length'') = Some 1000" by code_simp
  have 4: "map (\<lambda>c. GET ''http://h/f''
                   (''bytes='' @ showInt (offset c) @ ''-'' @ showInt (offset c + size' c)))
             (getChunks 1000 4 10000) =
           [GET ''http://h/f'' ''bytes=0-252'', GET ''http://h/f'' ''bytes=253-501'',
            GET ''http://h/f'' ''bytes=502-750'', GET ''http://h/f'' ''bytes=751-999'']"
    by code_simp
  from download_range_headers [OF 1 2 3, of "[0, 1, 2, 3]" 4 10000]
  have log: "snd (download ?w [0, 1, 2, 3] ''http://h/f'' 4 10000) =
           HEAD ''http://h/f'' #
           map (\<lambda>c. GET ''http://h/f''
                   (''bytes='' @ showInt (offset c) @ ''-'' @ showInt (offset c + size' c)))
             (getChunks 1000 4 10000)"
    and parse: "\<forall>c. 0 \<le> offset c \<and> 0 \<le> offset c + size' c \<longrightarrow>
              parseByteRange (rangeHeaderOf c) = Some (nat (offset c), nat (offset c + size' c))"
    by simp_all
  from parse [rule_format, of "\<lparr>size' = 248, offset = 253\<rparr>"]
  have "parseByteRange (rangeHeaderOf \<lparr>size' = 248, offset = 253\<rparr>) = Some (253, 501)"
    by simp
  with log 4 show ?thesis by simp
qed

subsection \<open>Validation and reassembly\<close>

lemma download_validated:
  assumes "axiosHead w url = Inr headers" and "acceptsRanges headers"
    and "toNumber (headers ''content-length'') = Some L"
    and "fst (awaitResponses w order url (getChunks L n limit) [HEAD url]) = Some (Inr responses)"
  shows "fst (download w order url n limit) =
         (if filter (\<lambda>x. status (response x) \<noteq> 206) responses \<noteq> []
          then Thrown (Error (''received invalid responses:\<newline> '' @
                  arrayToString (filter (\<lambda>x. status (response x) \<noteq> 206) responses)))
          else Returned (concat (map (\<lambda>x. data (response x)) responses)))"
  using assms by (simp add: download_def Let_def case_prod_beta)

lemma arrayToString_count:
  "arrayToString xs = join '','' (replicate (length xs) ''[object Object]'')"
proof -
  have e: "objectToString = (\<lambda>x. ''[object Object]'')"
    by (rule ext) (simp add: objectToString_def)
  show ?thesis
    unfolding arrayToString_def e by (simp only: map_replicate_const)
qed

text \<open>
  Claim C9. Whatever the order in which the range requests complete (as long as each
  completes), when every request is answered the awaited result sequence holds at index
  \<open>i\<close> the pair of chunk \<open>i\<close> and its response, and when every status is 206 the
  buffer returned is the concatenation of the payloads in chunk order.
\<close>

theorem download_order_preserved:
  assumes "axiosHead w url = Inr headers" and "acceptsRanges headers"
    and "toNumber (headers ''content-length'') = Some L"
    and "chunks = getChunks L n limit"
    and "\<forall>i<length chunks. axiosGet w i url (rangeHeaderOf (chunks ! i)) = Inr (r i)"
    and "\<forall>i<length chunks. status (r i) = 206"
    and "{0..<length chunks} \<subseteq> set order"
  shows "fst (awaitResponses w order url chunks [HEAD url]) =
           Some (Inr (map (\<lambda>i. \<lparr>chunk = chunks ! i, response = r i\<rparr>) [0..<length chunks])) \<and>
         fst (download w order url n limit) =
           Returned (concat (map (\<lambda>i. data (r i)) [0..<length chunks]))"
proof -
  let ?rs = "map (\<lambda>i. \<lparr>chunk = chunks ! i, response = r i\<rparr>) [0..<length chunks]"
  have a: "fst (awaitResponses w order url chunks [HEAD url]) = Some (Inr ?rs)"
    using assms(5,7) by (rule awaitResponses_fulfilled)
  have "status (response x) = 206" if "x \<in> set ?rs" for x
    using that assms(6) by auto
  then have f: "filter (\<lambda>x. status (response x) \<noteq> 206) ?rs = []"
    by (simp only: filter_empty_conv) blast
  have c: "concat (map (\<lambda>x. data (response x)) ?rs) = concat (map (\<lambda>i. data (r i)) [0..<length chunks])"
    by (simp add: comp_def)
  from a have a': "fst (awaitResponses w order url (getChunks L n limit) [HEAD url]) = Some (Inr ?rs)"
    using assms(4) by simp
  from download_validated [OF assms(1-3) a'] f c a show ?thesis
    by simp
qed

theorem download_order_preserved_witness:
  "fst (download (testServer [''accept-ranges'' \<mapsto> ''bytes'', ''content-length'' \<mapsto> ''1000'']
                    (\<lambda>i. Inr \<lparr>status = 206, data = [of_nat i, 255]\<rparr>))
          [3, 2, 1, 0] ''http://h/f'' 4 10000) =
     Returned [0, 255, 1, 255, 2, 255, 3, 255]"
proof -
  let ?hs = "[''accept-ranges'' \<mapsto> ''bytes'', ''content-length'' \<mapsto> ''1000'']"
  let ?r = "\<lambda>i::nat. \<lparr>status = 206, data = [of_nat i, 255 :: byte]\<rparr>"
  let ?w = "testServer ?hs (\<lambda>i. Inr (?r i))"
  have 1: "axiosHead ?w ''http://h/f'' = Inr ?hs" by (simp add: testServer_def)
  have 2: "acceptsRanges ?hs" by (simp add: acceptsRanges_def)
  have 3: "toNumber (?hs ''content-length'') = Some 1000" by code_simp
  have len: "length (getChunks 1000 4 10000) = 4" by code_simp
  have 5: "\<forall>i<length (getChunks 1000 4 10000).
             axiosGet ?w i ''http://h/f'' (rangeHeaderOf (getChunks 1000 4 10000 ! i)) = Inr (?r i)"
    by (simp add: testServer_def)
  have 6: "\<forall>i<length (getChunks 1000 4 10000). status (?r i) = 206" by simp
  have 7: "{0..<length (getChunks 1000 4 10000)} \<subseteq> set [3, 2, 1, 0::nat]"
    unfolding len by auto
  have idx: "[0..<4] = [0, 1, 2, 3::nat]" by code_simp
  from download_order_preserved [OF 1 2 3 refl 5 6 7]
  have "fst (download ?w [3, 2, 1, 0] ''http://h/f'' 4 10000) =
        Returned (concat (map (\<lambda>i. data (?r i)) [0..<length (getChunks 1000 4 10000)]))"
    by simp
  then show ?thesis unfolding len idx by simp
qed

text \<open>
  Claim C7, at an input where it fails. Lines 99-103 do throw one error built from all
  the responses whose status is not 206 (lemma \<open>download_validated\<close>), but the message
  prints each of them as \<^verbatim>\<open>[object Object]\<close> (lemma \<open>arrayToString_count\<close>): it names
  neither a range nor a status. With four chunks, the message is the same when chunks 1
  and 3 are answered with 200 as when chunks 0 and 2 are.
\<close>

theorem download_invalid_responses_message:
  "fst (download (testServer [''accept-ranges'' \<mapsto> ''bytes'', ''content-length'' \<mapsto> ''1000'']
                    (\<lambda>i. Inr \<lparr>status = [206, 200, 206, 200] ! i, data = []\<rparr>))
          [0, 1, 2, 3] ''http://h/f'' 4 10000) =
     Thrown (Error ''received invalid responses:\<newline> [object Object],[object Object]'') \<and>
   fst (download (testServer [''accept-ranges'' \<mapsto> ''bytes'', ''content-length'' \<mapsto> ''1000'']
                    (\<lambda>i. Inr \<lparr>status = [200, 206, 200, 206] ! i, data = []\<rparr>))
          [0, 1, 2, 3] ''http://h/f'' 4 10000) =
     Thrown (Error ''received invalid responses:\<newline> [object Object],[object Object]'')"
  by code_simp

end
